theory Spec2Isabelle
  imports Main "HOL-Library.AList" "HOL-Library.Sublist"
begin

section \<open>The prompt engine of bikeshare.py\<close>

text \<open>
  The development embeds the name-abbreviation and selection functions of
  \<^verbatim>\<open>bikeshare.py\<close>: \<^verbatim>\<open>abbreviate_initial\<close>, \<^verbatim>\<open>generate_city_prompts\<close>,
  \<^verbatim>\<open>generate_name_prompts\<close>, \<^verbatim>\<open>build_options\<close> and \<^verbatim>\<open>show_prompt\<close>.

  Conventions of the embedding.
  \<^item> A Python \<^verbatim>\<open>str\<close> is a \<^typ>\<open>string\<close>; the texts are ASCII.
  \<^item> A Python \<^verbatim>\<open>dict\<close> is an association list with pairwise distinct keys, in
    insertion order. \<^verbatim>\<open>d[k] = v\<close> is \<^const>\<open>AList.update\<close>: it replaces the value
    in place when the key is present and appends the pair otherwise, which is
    the order Python keeps. \<^verbatim>\<open>k in d\<close> and \<^verbatim>\<open>d[k]\<close> go through \<^const>\<open>map_of\<close>.
  \<^item> The value \<^verbatim>\<open>None\<close> stored in a dict is \<^term>\<open>None :: string option\<close>.
  \<^item> An uncaught exception is \<^term>\<open>Inl e\<close> of the result type.
  \<^item> \<^verbatim>\<open>input()\<close> takes the next line of a list of pending lines and raises
    \<^verbatim>\<open>EOFError\<close> when there is none; the text printed is not modelled.
\<close>

subsection \<open>Exceptions\<close>

datatype error =
    IndexError
  | KeyError string
  | UnboundLocalError
  | EOFError
  | Exception string

subsection \<open>String primitives of Python\<close>

text \<open>\<^verbatim>\<open>s.split(sep)\<close> for a one-character separator: every occurrence of the
  separator ends a token, so the result has one token more than there are
  separators and tokens may be empty.\<close>

fun str_split :: "char \<Rightarrow> string \<Rightarrow> string list" where
  "str_split sep [] = [[]]"
| "str_split sep (c # cs) =
     (if c = sep then [] # str_split sep cs
      else (case str_split sep cs of
              [] \<Rightarrow> [[c]]
            | t # ts \<Rightarrow> (c # t) # ts))"

text \<open>\<^verbatim>\<open>s.find(sub)\<close>: the least index at which \<^verbatim>\<open>sub\<close> starts in \<^verbatim>\<open>s\<close>, or \<^verbatim>\<open>-1\<close>.\<close>

fun str_find_from :: "string \<Rightarrow> string \<Rightarrow> int \<Rightarrow> int" where
  "str_find_from sub [] i = (if sub = [] then i else - 1)"
| "str_find_from sub (c # cs) i =
     (if take (length sub) (c # cs) = sub then i else str_find_from sub cs (i + 1))"

definition str_find :: "string \<Rightarrow> string \<Rightarrow> int" where
  "str_find s sub = str_find_from sub s 0"

text \<open>\<^verbatim>\<open>sep.join(xs)\<close>.\<close>

fun str_join :: "string \<Rightarrow> string list \<Rightarrow> string" where
  "str_join sep [] = []"
| "str_join sep [x] = x"
| "str_join sep (x # y # ys) = x @ sep @ str_join sep (y # ys)"

text \<open>\<^verbatim>\<open>s.lower()\<close> on ASCII text: the letters A to Z move to a to z. A character
  outside ASCII is left as it is, also where Python has a lower-case form for
  it, so the embedding of \<^verbatim>\<open>lower\<close> is exact on ASCII input only.\<close>

definition lower_char :: "char \<Rightarrow> char" where
  "lower_char c =
     (let n = (of_char c :: nat) in if 65 \<le> n \<and> n \<le> 90 then char_of (n + 32) else c)"

definition lower :: "string \<Rightarrow> string" where
  "lower s = map lower_char s"

text \<open>\<^verbatim>\<open>'{} [{}]'.format(name, abbreviation)\<close>.\<close>

definition format_prompt :: "string \<Rightarrow> string \<Rightarrow> string" where
  "format_prompt name abbreviation = name @ '' ['' @ abbreviation @ '']''"

subsection \<open>abbreviate_initial\<close>

text \<open>\<^verbatim>\<open>[part[0] for part in parts]\<close> joined: \<^verbatim>\<open>part[0]\<close> raises \<^verbatim>\<open>IndexError\<close> on
  an empty part.\<close>

fun initials_of :: "string list \<Rightarrow> error + string" where
  "initials_of [] = Inr []"
| "initials_of (part # parts) =
     (case part of
        [] \<Rightarrow> Inl IndexError
      | c # _ \<Rightarrow> (case initials_of parts of
                    Inl e \<Rightarrow> Inl e
                  | Inr initials \<Rightarrow> Inr (c # initials)))"

definition abbreviate_initial :: "string \<Rightarrow> error + string" where
  "abbreviate_initial city = initials_of (str_split CHR '' '' city)"

subsection \<open>generate_city_prompts\<close>

type_synonym abbreviations = "(string \<times> string) list"

fun city_loop ::
  "string list \<Rightarrow> string list \<times> abbreviations \<Rightarrow> error + (string list \<times> abbreviations)"
where
  "city_loop [] st = Inr st"
| "city_loop (city # cities) (prompts, abbreviations) =
     (case abbreviate_initial city of
        Inl e \<Rightarrow> Inl e
      | Inr abbreviation \<Rightarrow>
          city_loop cities
            (prompts @ [format_prompt city abbreviation],
             AList.update abbreviation city abbreviations))"

definition generate_city_prompts :: "string list \<Rightarrow> error + (string list \<times> abbreviations)" where
  "generate_city_prompts cities = city_loop cities ([], [])"

subsection \<open>generate_name_prompts\<close>

text \<open>\<^verbatim>\<open>potential_abbreviations\<close>: a key is bound to a name, or to \<^verbatim>\<open>None\<close> once it
  has been given up (a tombstone).\<close>

type_synonym potential = "(string \<times> string option) list"

text \<open>The inner loop \<^verbatim>\<open>for length in range(1, len(name) + 1)\<close>, over the lengths
  still to try. The loop ends at the \<^verbatim>\<open>break\<close> or when the lengths run out.\<close>

fun prefix_search :: "string \<Rightarrow> nat list \<Rightarrow> potential \<Rightarrow> potential" where
  "prefix_search name [] pa = pa"
| "prefix_search name (len # lens) pa =
     (let first_part = take len name in
      case map_of pa first_part of
        None \<Rightarrow> AList.update first_part (Some name) pa
      | Some previous_name \<Rightarrow>
          (case previous_name of
             None \<Rightarrow> prefix_search name lens pa
           | Some previous \<Rightarrow>
               prefix_search name lens
                 (AList.update (take (len + 1) previous) (Some previous)
                    (AList.update first_part None pa))))"



text \<open>One round of the outer loop \<^verbatim>\<open>for name in names\<close>.\<close>

definition register_name :: "potential \<Rightarrow> string \<Rightarrow> potential" where
  "register_name pa name =
     (if str_find name ''not'' \<noteq> - 1 then AList.update ''none'' (Some name) pa
      else if str_find name ''all'' \<noteq> - 1 then AList.update ''all'' (Some name) pa
      else prefix_search name [1 ..< length name + 1] pa)"

definition potential_abbreviations :: "string list \<Rightarrow> potential" where
  "potential_abbreviations names = foldl register_name [] names"

text \<open>The loop over \<^verbatim>\<open>potential_abbreviations.items()\<close> that fills \<^verbatim>\<open>abbreviations\<close>
  and its inverse \<^verbatim>\<open>abbreviation_map\<close>.\<close>

fun collect ::
  "potential \<Rightarrow> abbreviations \<times> abbreviations \<Rightarrow> abbreviations \<times> abbreviations"
where
  "collect [] st = st"
| "collect ((key, val) # rest) (abbreviations, abbreviation_map) =
     (case val of
        None \<Rightarrow> collect rest (abbreviations, abbreviation_map)
      | Some v \<Rightarrow>
          collect rest (AList.update key v abbreviations, AList.update v key abbreviation_map))"

text \<open>\<^verbatim>\<open>['{} [{}]'.format(name, abbreviation_map[name]) for name in names]\<close>: the
  lookup raises \<^verbatim>\<open>KeyError\<close> for a name that has no key.\<close>

fun name_prompts :: "abbreviations \<Rightarrow> string list \<Rightarrow> error + string list" where
  "name_prompts abbreviation_map [] = Inr []"
| "name_prompts abbreviation_map (name # names) =
     (case map_of abbreviation_map name of
        None \<Rightarrow> Inl (KeyError name)
      | Some abbreviation \<Rightarrow>
          (case name_prompts abbreviation_map names of
             Inl e \<Rightarrow> Inl e
           | Inr prompts \<Rightarrow> Inr (format_prompt name abbreviation # prompts)))"

definition generate_name_prompts :: "string list \<Rightarrow> error + (string list \<times> abbreviations)" where
  "generate_name_prompts names =
     (case collect (potential_abbreviations names) ([], []) of
        (abbreviations, abbreviation_map) \<Rightarrow>
          (case name_prompts abbreviation_map names of
             Inl e \<Rightarrow> Inl e
           | Inr prompts \<Rightarrow> Inr (prompts, abbreviations)))"

subsection \<open>build_options\<close>

definition ACRONYMN :: int where
  "ACRONYMN = 0"

definition PROPER_NAME :: int where
  "PROPER_NAME = 1"

text \<open>With one prompt the function binds \<^verbatim>\<open>city_part\<close> and leaves \<^verbatim>\<open>options\<close>
  unbound, so \<^verbatim>\<open>return options, abbreviations\<close> raises \<^verbatim>\<open>UnboundLocalError\<close>. With
  no prompt \<^verbatim>\<open>prompts[-1]\<close> raises \<^verbatim>\<open>IndexError\<close>.\<close>

definition build_options :: "string list \<Rightarrow> int \<Rightarrow> error + (string \<times> abbreviations)" where
  "build_options names abbreviation_type =
     (case (if abbreviation_type = ACRONYMN then generate_city_prompts names
            else generate_name_prompts names) of
        Inl e \<Rightarrow> Inl e
      | Inr (prompts, abbreviations) \<Rightarrow>
          if length prompts = 1 then Inl UnboundLocalError
          else if prompts = [] then Inl IndexError
          else Inr (str_join '' or '' [str_join '', '' (butlast prompts), last prompts],
                    abbreviations))"

subsection \<open>show_prompt\<close>

definition MAX_PROMPTS :: nat where
  "MAX_PROMPTS = 3"

text \<open>The inner loop over \<^verbatim>\<open>prompt_map.items()\<close>: the value of the first entry
  whose key or value equals the input, all in lower case.\<close>

fun find_selected :: "string \<Rightarrow> abbreviations \<Rightarrow> string option" where
  "find_selected raw [] = None"
| "find_selected raw ((key, val) # rest) =
     (let lowercase = lower raw in
      if lowercase = lower key \<or> lowercase = lower val then Some val
      else find_selected raw rest)"

text \<open>The loop \<^verbatim>\<open>for index in range(0, MAX_PROMPTS)\<close> and the statements after it,
  with the number of rounds left, the last \<^verbatim>\<open>raw\<close> and the lines not yet read.
  The result comes with the lines that remain unread.\<close>

fun prompt_attempts ::
  "nat \<Rightarrow> abbreviations \<Rightarrow> string \<Rightarrow> string list \<Rightarrow> (error + string) \<times> string list"
where
  "prompt_attempts 0 prompt_map raw lines =
     (Inl (Exception (''Invalid selection: '' @
             (if raw = [] then [CHR 0x27, CHR 0x27] else raw))), lines)"
| "prompt_attempts (Suc n) prompt_map raw [] = (Inl EOFError, [])"
| "prompt_attempts (Suc n) prompt_map raw (line # lines) =
     (case find_selected line prompt_map of
        Some selected \<Rightarrow> (Inr selected, lines)
      | None \<Rightarrow> prompt_attempts n prompt_map line lines)"

definition show_prompt ::
  "string list \<Rightarrow> int \<Rightarrow> string \<Rightarrow> string list \<Rightarrow> (error + string) \<times> string list"
where
  "show_prompt names abbreviation_type beginning lines =
     (case build_options names abbreviation_type of
        Inl e \<Rightarrow> (Inl e, lines)
      | Inr (word_part, prompt_map) \<Rightarrow> prompt_attempts MAX_PROMPTS prompt_map [] lines)"

subsection \<open>Notions used in the statements\<close>

text \<open>The first character of every token of a name, in order: what
  \<^verbatim>\<open>abbreviate_initial\<close> returns when no token is empty.\<close>

abbreviation first_letters :: "string \<Rightarrow> string" where
  "first_letters city \<equiv> map hd (str_split CHR '' '' city)"

text \<open>An input matches an entry of the prompt map when it equals the key or the
  value, all in lower case: the test of the inner loop of \<^verbatim>\<open>show_prompt\<close>.\<close>

definition matches :: "string \<Rightarrow> string \<times> string \<Rightarrow> bool" where
  "matches raw entry \<longleftrightarrow> lower raw = lower (fst entry) \<or> lower raw = lower (snd entry)"

text \<open>The exception that \<^verbatim>\<open>show_prompt\<close> raises for a last input \<^verbatim>\<open>raw\<close>:
  \<^verbatim>\<open>raw or "''"\<close> puts two quotes for an empty input.\<close>

definition invalid_selection :: "string \<Rightarrow> error" where
  "invalid_selection raw =
     Exception (''Invalid selection: '' @ (if raw = [] then [CHR 0x27, CHR 0x27] else raw))"


text \<open>The names bound in the table.\<close>

definition bound_names :: "potential \<Rightarrow> string set" where
  "bound_names pa = {v. \<exists>k. (k, Some v) \<in> set pa}"

text \<open>The live entries of the table, in order.\<close>

fun live :: "potential \<Rightarrow> abbreviations" where
  "live [] = []"
| "live ((key, None) # rest) = live rest"
| "live ((key, Some v) # rest) = (key, v) # live rest"

section \<open>Splitting on spaces and initials\<close>

lemma str_split_not_Nil: "str_split sep s \<noteq> []"
  by (induction s) (auto split: list.splits)

lemma hd_str_split_Nil: "hd (str_split sep s) = [] \<longleftrightarrow> s = [] \<or> hd s = sep"
  by (cases s) (auto split: list.splits)

lemma Nil_in_tl_str_split:
  "[] \<in> set (tl (str_split sep s)) \<longleftrightarrow> (s \<noteq> [] \<and> last s = sep) \<or> sublist [sep, sep] s"
proof (induction s)
  case Nil
  show ?case by simp
next
  case (Cons c cs)
  obtain t ts where ts: "str_split sep cs = t # ts"
    using str_split_not_Nil [of sep cs] by (cases "str_split sep cs") auto
  have hdt: "t = [] \<longleftrightarrow> cs = [] \<or> hd cs = sep"
    using hd_str_split_Nil [of sep cs] ts by simp
  show ?case
  proof (cases "c = sep")
    case True
    have "[] \<in> set (tl (str_split sep (c # cs))) \<longleftrightarrow> t = [] \<or> [] \<in> set ts"
      using True ts by auto
    also have "\<dots> \<longleftrightarrow> (cs = [] \<or> hd cs = sep) \<or> (cs \<noteq> [] \<and> last cs = sep) \<or> sublist [sep, sep] cs"
      using Cons.IH ts hdt by simp
    also have "\<dots> \<longleftrightarrow> (c # cs \<noteq> [] \<and> last (c # cs) = sep) \<or> sublist [sep, sep] (c # cs)"
      using True by (cases cs) (auto simp: sublist_Cons_right)
    finally show ?thesis .
  next
    case False
    have "[] \<in> set (tl (str_split sep (c # cs))) \<longleftrightarrow> [] \<in> set ts"
      using False ts by simp
    also have "\<dots> \<longleftrightarrow> (cs \<noteq> [] \<and> last cs = sep) \<or> sublist [sep, sep] cs"
      using Cons.IH ts by simp
    also have "\<dots> \<longleftrightarrow> (c # cs \<noteq> [] \<and> last (c # cs) = sep) \<or> sublist [sep, sep] (c # cs)"
      using False by (auto simp: sublist_Cons_right)
    finally show ?thesis .
  qed
qed

lemma Nil_in_str_split:
  "[] \<in> set (str_split sep s) \<longleftrightarrow>
     s = [] \<or> hd s = sep \<or> last s = sep \<or> sublist [sep, sep] s"
proof -
  have "[] \<in> set (str_split sep s) \<longleftrightarrow>
        hd (str_split sep s) = [] \<or> [] \<in> set (tl (str_split sep s))"
    using str_split_not_Nil [of sep s] by (cases "str_split sep s") auto
  then show ?thesis
    unfolding hd_str_split_Nil Nil_in_tl_str_split by auto
qed

lemma initials_of_total:
  "[] \<notin> set parts \<Longrightarrow> initials_of parts = Inr (map hd parts)"
  by (induction parts) (auto split: list.splits)

lemma initials_of_fails:
  "[] \<in> set parts \<Longrightarrow> initials_of parts = Inl IndexError"
  by (induction parts) (auto split: list.splits sum.splits)

lemma abbreviate_initial_cases:
  "abbreviate_initial city =
     (if [] \<in> set (str_split CHR '' '' city) then Inl IndexError
      else Inr (map hd (str_split CHR '' '' city)))"
  by (simp add: abbreviate_initial_def initials_of_total initials_of_fails)

lemma city_loop_ok:
  "\<forall>c \<in> set cities. [] \<notin> set (str_split CHR '' '' c) \<Longrightarrow>
   city_loop cities (ps, ab) =
     Inr (ps @ map (\<lambda>c. format_prompt c (map hd (str_split CHR '' '' c))) cities,
          foldl (\<lambda>m c. AList.update (map hd (str_split CHR '' '' c)) c m) ab cities)"
  by (induction cities arbitrary: ps ab) (auto simp: abbreviate_initial_cases)

lemma city_loop_fails:
  "\<exists>c \<in> set cities. [] \<in> set (str_split CHR '' '' c) \<Longrightarrow>
   city_loop cities (ps, ab) = Inl IndexError"
  by (induction cities arbitrary: ps ab) (auto simp: abbreviate_initial_cases)

lemma map_of_fold_update:
  "map_of (foldl (\<lambda>m c. AList.update (f c) c m) ab cities) =
   map_of (rev (map (\<lambda>c. (f c, c)) cities) @ ab)"
proof (induction cities arbitrary: ab)
  case Nil
  show ?case by simp
next
  case (Cons c cities)
  show ?case
    by (simp add: Cons.IH update_conv' map_add_def fun_eq_iff split: option.splits)
qed

lemma distinct_fold_update:
  "distinct (map fst ab) \<Longrightarrow>
   distinct (map fst (foldl (\<lambda>m c. AList.update (f c) c m) ab cities))"
  by (induction cities arbitrary: ab) (simp_all add: distinct_update)

lemma map_of_rev_pairs:
  "map_of (rev (map (\<lambda>c. (f c, c)) xs)) k =
     (if filter (\<lambda>c. f c = k) xs = [] then None else Some (last (filter (\<lambda>c. f c = k) xs)))"
  by (induction xs) (auto simp: map_add_def split: option.splits)

lemma last_filter_tail:
  assumes "P y"
  shows "filter P (ys @ y # zs) \<noteq> [] \<and> last (filter P (ys @ y # zs)) \<in> set (y # zs)"
proof -
  have "last (filter P (ys @ y # zs)) = last (y # filter P zs)"
    using assms by simp
  also have "\<dots> \<in> set (y # filter P zs)"
    by (rule last_in_set) simp
  also have "\<dots> \<subseteq> set (y # zs)"
    by auto
  finally have "last (filter P (ys @ y # zs)) \<in> set (y # zs)" .
  then show ?thesis
    using assms by simp
qed

lemma last_filter_from:
  assumes "j < length xs" "P (xs ! j)"
  shows "filter P xs \<noteq> [] \<and> last (filter P xs) \<in> set (drop j xs)"
proof -
  define ys where "ys = take j xs"
  define zs where "zs = drop (Suc j) xs"
  have xs: "ys @ xs ! j # zs = xs"
    unfolding ys_def zs_def using assms(1) by (simp add: id_take_nth_drop [symmetric])
  have d: "drop j xs = xs ! j # zs"
    unfolding zs_def using assms(1) by (simp add: Cons_nth_drop_Suc)
  have "filter P (ys @ xs ! j # zs) \<noteq> [] \<and>
      last (filter P (ys @ xs ! j # zs)) \<in> set (xs ! j # zs)"
    using assms(2) by (rule last_filter_tail)
  then show ?thesis
    unfolding xs d .
qed

lemma last_filter_at:
  assumes "j < length xs" "P (xs ! j)" "\<forall>l. j < l \<and> l < length xs \<longrightarrow> \<not> P (xs ! l)"
  shows "last (filter P xs) = xs ! j"
proof -
  define ys where "ys = take j xs"
  define zs where "zs = drop (Suc j) xs"
  have xs: "ys @ xs ! j # zs = xs"
    unfolding ys_def zs_def using assms(1) by (simp add: id_take_nth_drop [symmetric])
  have "\<not> P z" if "z \<in> set zs" for z
  proof -
    from that obtain n where n: "n < length zs" "z = zs ! n"
      by (auto simp: in_set_conv_nth)
    then have "z = xs ! (Suc j + n)" "Suc j + n < length xs"
      unfolding zs_def by auto
    with assms(3) show ?thesis
      by simp
  qed
  then have "filter P zs = []"
    by (simp add: filter_empty_conv)
  then have "last (filter P (ys @ xs ! j # zs)) = xs ! j"
    using assms(2) by simp
  then show ?thesis
    unfolding xs .
qed

lemma generate_city_prompts_ok:
  assumes "\<forall>c \<in> set names. [] \<notin> set (str_split CHR '' '' c)"
  shows "\<exists>abbreviations.
           generate_city_prompts names =
             Inr (map (\<lambda>c. format_prompt c (first_letters c)) names, abbreviations) \<and>
           distinct (map fst abbreviations) \<and>
           map_of abbreviations = map_of (rev (map (\<lambda>c. (first_letters c, c)) names))"
  unfolding generate_city_prompts_def city_loop_ok [OF assms]
  using map_of_fold_update [of first_letters "[]" names]
    distinct_fold_update [of "[]" first_letters names]
  by simp

text \<open>
  Claim C9. \<^verbatim>\<open>abbreviate_initial\<close> returns a value exactly when no token of the
  split on single spaces is empty. A token is empty exactly when the name is
  empty, starts with a space, ends with a space or has two spaces in a row;
  the call then raises \<^verbatim>\<open>IndexError\<close>. \<^verbatim>\<open>generate_city_prompts\<close> returns exactly
  when every name of its list has no empty token.
\<close>

theorem abbreviate_initial_total_iff:
  "((\<exists>a. abbreviate_initial city = Inr a) \<longleftrightarrow> [] \<notin> set (str_split CHR '' '' city)) \<and>
   ([] \<in> set (str_split CHR '' '' city) \<longleftrightarrow>
      city = [] \<or> hd city = CHR '' '' \<or> last city = CHR '' '' \<or> sublist ''  '' city) \<and>
   ([] \<in> set (str_split CHR '' '' city) \<longrightarrow> abbreviate_initial city = Inl IndexError) \<and>
   ((\<exists>r. generate_city_prompts names = Inr r) \<longleftrightarrow>
      (\<forall>c \<in> set names. [] \<notin> set (str_split CHR '' '' c)))"
proof (intro conjI)
  show "(\<exists>a. abbreviate_initial city = Inr a) \<longleftrightarrow> [] \<notin> set (str_split CHR '' '' city)"
    by (simp add: abbreviate_initial_cases)
  show "[] \<in> set (str_split CHR '' '' city) \<longleftrightarrow>
      city = [] \<or> hd city = CHR '' '' \<or> last city = CHR '' '' \<or> sublist ''  '' city"
    by (rule Nil_in_str_split)
  show "[] \<in> set (str_split CHR '' '' city) \<longrightarrow> abbreviate_initial city = Inl IndexError"
    by (simp add: abbreviate_initial_cases)
  show "(\<exists>r. generate_city_prompts names = Inr r) \<longleftrightarrow>
      (\<forall>c \<in> set names. [] \<notin> set (str_split CHR '' '' c))"
  proof (cases "\<forall>c \<in> set names. [] \<notin> set (str_split CHR '' '' c)")
    case True
    then show ?thesis
      by (simp add: generate_city_prompts_def city_loop_ok)
  next
    case False
    then have "\<exists>c \<in> set names. [] \<in> set (str_split CHR '' '' c)"
      by simp
    from city_loop_fails [OF this] False show ?thesis
      by (simp add: generate_city_prompts_def)
  qed
qed

theorem abbreviate_initial_total_iff_witness:
  "[] \<in> set (str_split CHR '' '' ''New  York'') \<and>
   abbreviate_initial ''New  York'' = Inl IndexError \<and>
   [] \<notin> set (str_split CHR '' '' ''Chicago'') \<and>
   [] \<notin> set (str_split CHR '' '' ''New York City'') \<and>
   (\<exists>r. generate_city_prompts [''Chicago'', ''New York City''] = Inr r)"
  using abbreviate_initial_total_iff [of "''New  York''" "[''Chicago'', ''New York City'']"] by simp



text \<open>
  Claim C7, as the code has it. In a list of names without empty tokens, let
  the names at positions \<open>i < j\<close> have the same initials. Then
  \<^verbatim>\<open>generate_city_prompts\<close> raises nothing and the shared abbreviation is bound
  to the last name of the list that has these initials. That name stands at
  position \<open>j\<close> or later, and it is the name at \<open>j\<close> when no later name has
  these initials. The name at \<open>i\<close> is a value of the returned map exactly when
  it is that last name; so it is no value of the map when it differs from the
  name at \<open>j\<close> and does not come again after position \<open>j\<close>. The prompts at
  \<open>i\<close> and \<open>j\<close> both carry the shared abbreviation.
\<close>

theorem generate_city_prompts_last_write_wins:
  assumes "\<forall>c \<in> set names. [] \<notin> set (str_split CHR '' '' c)"
    and "i < j" and "j < length names"
    and "abbreviate_initial (names ! i) = abbreviate_initial (names ! j)"
  shows "\<exists>prompts abbreviations a.
           generate_city_prompts names = Inr (prompts, abbreviations) \<and>
           abbreviate_initial (names ! i) = Inr a \<and>
           map_of abbreviations a =
             Some (last (filter (\<lambda>c. abbreviate_initial c = Inr a) names)) \<and>
           last (filter (\<lambda>c. abbreviate_initial c = Inr a) names) \<in> set (drop j names) \<and>
           ((\<forall>l. j < l \<and> l < length names \<longrightarrow> abbreviate_initial (names ! l) \<noteq> Inr a) \<longrightarrow>
              map_of abbreviations a = Some (names ! j)) \<and>
           (names ! i \<in> snd ` set abbreviations \<longleftrightarrow>
              last (filter (\<lambda>c. abbreviate_initial c = Inr a) names) = names ! i) \<and>
           (names ! i \<noteq> names ! j \<and> names ! i \<notin> set (drop (Suc j) names) \<longrightarrow>
              map_of abbreviations a \<noteq> Some (names ! i) \<and>
              names ! i \<notin> snd ` set abbreviations) \<and>
           length prompts = length names \<and>
           prompts ! i = format_prompt (names ! i) a \<and>
           prompts ! j = format_prompt (names ! j) a"
proof -
  let ?f = first_letters
  define a where "a = ?f (names ! i)"
  let ?P = "\<lambda>c. abbreviate_initial c = Inr a"
  from generate_city_prompts_ok [OF assms(1)]
  obtain abbreviations where
    g: "generate_city_prompts names =
          Inr (map (\<lambda>c. format_prompt c (?f c)) names, abbreviations)"
    and d: "distinct (map fst abbreviations)"
    and m: "map_of abbreviations = map_of (rev (map (\<lambda>c. (?f c, c)) names))"
    by blast
  have ilt: "i < length names"
    using assms(2,3) by simp
  have ab: "abbreviate_initial c = Inr (?f c)" if "c \<in> set names" for c
    using that assms(1) by (simp add: abbreviate_initial_cases)
  have ai: "abbreviate_initial (names ! i) = Inr a"
    using ab [of "names ! i"] ilt by (simp add: a_def)
  have Pj: "?P (names ! j)"
    using assms(4) ai by simp
  have aj: "?f (names ! j) = a"
    using ab [of "names ! j"] assms(3) Pj by simp
  have same: "filter (\<lambda>c. ?f c = k) names = filter (\<lambda>c. abbreviate_initial c = Inr k) names" for k
    by (rule filter_cong) (auto simp: ab)
  have lookup: "map_of abbreviations k =
      (if filter (\<lambda>c. abbreviate_initial c = Inr k) names = [] then None
       else Some (last (filter (\<lambda>c. abbreviate_initial c = Inr k) names)))" for k
    unfolding m same [symmetric] by (rule map_of_rev_pairs)
  from last_filter_from [of j names ?P, OF assms(3) Pj]
  have ne: "filter ?P names \<noteq> []" and from_j: "last (filter ?P names) \<in> set (drop j names)"
    by simp_all
  have bound: "map_of abbreviations a = Some (last (filter ?P names))"
    unfolding lookup using ne by simp
  have at_j: "map_of abbreviations a = Some (names ! j)"
    if "\<forall>l. j < l \<and> l < length names \<longrightarrow> abbreviate_initial (names ! l) \<noteq> Inr a"
    unfolding bound using last_filter_at [of j names ?P, OF assms(3) Pj that] by simp
  have val: "names ! i \<in> snd ` set abbreviations \<longleftrightarrow> last (filter ?P names) = names ! i"
  proof
    assume "names ! i \<in> snd ` set abbreviations"
    then obtain k where k: "(k, names ! i) \<in> set abbreviations"
      by auto
    then have s: "map_of abbreviations k = Some (names ! i)"
      using d by simp
    then have nek: "filter (\<lambda>c. abbreviate_initial c = Inr k) names \<noteq> []"
      and l: "last (filter (\<lambda>c. abbreviate_initial c = Inr k) names) = names ! i"
      unfolding lookup by (auto split: if_splits)
    from nek have "last (filter (\<lambda>c. abbreviate_initial c = Inr k) names) \<in>
        set (filter (\<lambda>c. abbreviate_initial c = Inr k) names)"
      by (rule last_in_set)
    then have "abbreviate_initial (names ! i) = Inr k"
      unfolding l by simp
    with ai have "k = a"
      by simp
    with l show "last (filter ?P names) = names ! i"
      by simp
  next
    assume "last (filter ?P names) = names ! i"
    with bound have "map_of abbreviations a = Some (names ! i)"
      by simp
    then have "(a, names ! i) \<in> set abbreviations"
      by (rule map_of_SomeD)
    then show "names ! i \<in> snd ` set abbreviations"
      by force
  qed
  have absent: "map_of abbreviations a \<noteq> Some (names ! i) \<and> names ! i \<notin> snd ` set abbreviations"
    if h: "names ! i \<noteq> names ! j \<and> names ! i \<notin> set (drop (Suc j) names)"
  proof -
    have "drop j names = names ! j # drop (Suc j) names"
      using assms(3) by (simp add: Cons_nth_drop_Suc)
    with h have "names ! i \<notin> set (drop j names)"
      by simp
    with from_j have "last (filter ?P names) \<noteq> names ! i"
      by auto
    then show ?thesis
      unfolding val bound by simp
  qed
  have pi: "map (\<lambda>c. format_prompt c (?f c)) names ! i = format_prompt (names ! i) a"
    using ilt by (simp add: a_def)
  have pj: "map (\<lambda>c. format_prompt c (?f c)) names ! j = format_prompt (names ! j) a"
    using assms(3) aj by simp
  have len: "length (map (\<lambda>c. format_prompt c (?f c)) names) = length names"
    by simp
  show ?thesis
    using g ai bound from_j at_j val absent len pi pj by blast
qed

text \<open>
  The claim as stated fails when the earlier name comes again after the later
  one. New York and New Yam are distinct names with the initials NY; for the
  list New York, New Yam, New York the returned map binds NY to New York, so
  the earlier name is a value of the map.
\<close>

theorem generate_city_prompts_last_write_wins_counterexample:
  "abbreviate_initial ''New York'' = Inr ''NY'' \<and>
   abbreviate_initial ''New Yam'' = Inr ''NY'' \<and>
   ''New York'' \<noteq> ''New Yam'' \<and>
   generate_city_prompts [''New York'', ''New Yam'', ''New York''] =
     Inr ([''New York [NY]'', ''New Yam [NY]'', ''New York [NY]''], [(''NY'', ''New York'')]) \<and>
   ''New York'' \<in> snd ` set [(''NY'', ''New York'')]"
  by code_simp

theorem generate_city_prompts_last_write_wins_witness:
  "[] \<notin> set (str_split CHR '' '' ''New York'') \<and>
   [] \<notin> set (str_split CHR '' '' ''New Yam'') \<and>
   [] \<notin> set (str_split CHR '' '' ''Reno'') \<and>
   (0::nat) < 1 \<and>
   (1::nat) < length [''New York'', ''New Yam'', ''Reno''] \<and>
   abbreviate_initial ([''New York'', ''New Yam'', ''Reno''] ! 0) =
     abbreviate_initial ([''New York'', ''New Yam'', ''Reno''] ! 1) \<and>
   ''New York'' \<noteq> ''New Yam'' \<and> ''New York'' \<notin> set (drop (Suc 1) [''New York'', ''New Yam'', ''Reno'']) \<and>
   (\<exists>prompts abbreviations.
      generate_city_prompts [''New York'', ''New Yam'', ''Reno''] = Inr (prompts, abbreviations) \<and>
      map_of abbreviations ''NY'' = Some ''New Yam'' \<and>
      ''New York'' \<notin> snd ` set abbreviations \<and>
      prompts ! 0 = ''New York [NY]'' \<and> prompts ! 1 = ''New Yam [NY]'')"
proof -
  let ?names = "[''New York'', ''New Yam'', ''Reno'']"
  have h1: "\<forall>c \<in> set ?names. [] \<notin> set (str_split CHR '' '' c)" by simp
  have h3: "(0::nat) < 1" by simp
  have h4: "(1::nat) < length ?names" by simp
  have h5: "abbreviate_initial (?names ! 0) = abbreviate_initial (?names ! 1)"
    by (simp add: abbreviate_initial_def)
  have h6: "''New York'' \<noteq> ''New Yam''" by simp
  have h7: "''New York'' \<notin> set (drop (Suc 1) ?names)" by simp
  have a: "abbreviate_initial ''New York'' = Inr ''NY''"
    by (simp add: abbreviate_initial_def)
  have b: "abbreviate_initial ''New Yam'' = Inr ''NY''"
    by (simp add: abbreviate_initial_def)
  have c: "abbreviate_initial ''Reno'' = Inr ''R''"
    by (simp add: abbreviate_initial_def)
  from generate_city_prompts_last_write_wins [OF h1 h3 h4 h5] a b c h1 h5 h6 h7 show ?thesis
    by (auto simp: format_prompt_def)
qed

section \<open>The enumeration of build_options\<close>

text \<open>
  Claim C4. The claim asks that a single display string is returned unchanged.
  The source binds \<^verbatim>\<open>city_part\<close> in that branch and returns \<^verbatim>\<open>options\<close>, which is
  unbound: with one name, of either abbreviation type, \<^verbatim>\<open>build_options\<close> raises
  \<^verbatim>\<open>UnboundLocalError\<close> and returns no enumeration.
\<close>

theorem build_options_single_prompt_unbound:
  "build_options [''Chicago''] ACRONYMN = Inl UnboundLocalError \<and>
   build_options [''month''] PROPER_NAME = Inl UnboundLocalError"
  by (simp add: build_options_def generate_city_prompts_def abbreviate_initial_def
      generate_name_prompts_def potential_abbreviations_def register_name_def str_find_def
      ACRONYMN_def PROPER_NAME_def)

section \<open>The table of generate_name_prompts\<close>

lemma set_update_subset: "set (AList.update k v al) \<subseteq> insert (k, v) (set al)"
  by (induction al) auto

lemma set_update_fresh:
  "k \<notin> fst ` set al \<Longrightarrow> set (AList.update k v al) = insert (k, v) (set al)"
  by (induction al) auto

lemma update_fresh_append:
  "k \<notin> fst ` set al \<Longrightarrow> AList.update k v al = al @ [(k, v)]"
  by (induction al) auto

lemma city_loop_values:
  "city_loop cities (ps, ab) = Inr (ps', ab') \<Longrightarrow> snd ` set ab' \<subseteq> snd ` set ab \<union> set cities"
proof (induction cities arbitrary: ps ab)
  case Nil
  then show ?case by simp
next
  case (Cons c cities)
  from Cons.prems obtain a where a: "abbreviate_initial c = Inr a"
    by (cases "abbreviate_initial c") auto
  with Cons.prems have
    "city_loop cities (ps @ [format_prompt c a], AList.update a c ab) = Inr (ps', ab')"
    by simp
  from Cons.IH [OF this] have "snd ` set ab' \<subseteq> snd ` set (AList.update a c ab) \<union> set cities" .
  moreover have "snd ` set (AList.update a c ab) \<subseteq> insert c (snd ` set ab)"
    using set_update_subset [of a c ab] by auto
  ultimately show ?case by auto
qed

lemma bound_names_update_Some:
  "bound_names (AList.update k (Some v) pa) \<subseteq> insert v (bound_names pa)"
  using set_update_subset [of k "Some v" pa] by (auto simp: bound_names_def)

lemma bound_names_update_None:
  "bound_names (AList.update k None pa) \<subseteq> bound_names pa"
  using set_update_subset [of k None pa] by (auto simp: bound_names_def)

lemma map_of_bound: "map_of pa k = Some (Some v) \<Longrightarrow> v \<in> bound_names pa"
  by (auto simp: bound_names_def dest: map_of_SomeD)

lemma prefix_search_bound:
  "bound_names (prefix_search name lens pa) \<subseteq> insert name (bound_names pa)"
proof (induction lens arbitrary: pa)
  case Nil
  show ?case by auto
next
  case (Cons len lens)
  show ?case
  proof (cases "map_of pa (take len name)")
    case None
    then show ?thesis
      using bound_names_update_Some [of "take len name" name pa] by simp
  next
    case (Some previous_name)
    show ?thesis
    proof (cases previous_name)
      case None
      with Some Cons.IH [of pa] show ?thesis by simp
    next
      case (Some previous)
      let ?pa1 = "AList.update (take len name) None pa"
      let ?pa2 = "AList.update (take (len + 1) previous) (Some previous) ?pa1"
      have "previous \<in> bound_names pa"
        using \<open>map_of pa (take len name) = Some previous_name\<close> Some by (simp add: map_of_bound)
      moreover have "bound_names ?pa2 \<subseteq> insert previous (bound_names ?pa1)"
        by (rule bound_names_update_Some)
      moreover have "bound_names ?pa1 \<subseteq> bound_names pa"
        by (rule bound_names_update_None)
      ultimately have "bound_names ?pa2 \<subseteq> bound_names pa"
        by auto
      with Cons.IH [of ?pa2] have "bound_names (prefix_search name lens ?pa2) \<subseteq> insert name (bound_names pa)"
        by auto
      then show ?thesis
        using \<open>map_of pa (take len name) = Some previous_name\<close> Some by simp
    qed
  qed
qed

lemma register_name_bound:
  "bound_names (register_name pa name) \<subseteq> insert name (bound_names pa)"
  unfolding register_name_def
  using prefix_search_bound bound_names_update_Some by simp

lemma foldl_register_bound:
  "bound_names (foldl register_name pa names) \<subseteq> bound_names pa \<union> set names"
proof (induction names arbitrary: pa)
  case Nil
  show ?case by simp
next
  case (Cons n names)
  from Cons.IH [of "register_name pa n"] register_name_bound [of pa n]
  show ?case by auto
qed

lemma potential_abbreviations_bound:
  "bound_names (potential_abbreviations names) \<subseteq> set names"
  using foldl_register_bound [of "[]" names]
  by (simp add: potential_abbreviations_def bound_names_def)

lemma prefix_search_distinct:
  "distinct (map fst pa) \<Longrightarrow> distinct (map fst (prefix_search name lens pa))"
  by (induction lens arbitrary: pa) (auto simp: distinct_update Let_def split: option.splits)

lemma register_name_distinct:
  "distinct (map fst pa) \<Longrightarrow> distinct (map fst (register_name pa name))"
  by (simp add: register_name_def distinct_update prefix_search_distinct)

lemma foldl_register_distinct:
  "distinct (map fst pa) \<Longrightarrow> distinct (map fst (foldl register_name pa names))"
  by (induction names arbitrary: pa) (simp_all add: register_name_distinct)

lemma potential_abbreviations_distinct:
  "distinct (map fst (potential_abbreviations names))"
  by (simp add: potential_abbreviations_def foldl_register_distinct)

lemma set_live: "set (live pa) = {(k, v). (k, Some v) \<in> set pa}"
  by (induction pa rule: live.induct) auto

lemma collect_fst:
  "distinct (map fst pa) \<Longrightarrow> fst ` set ab \<inter> fst ` set pa = {} \<Longrightarrow>
   fst (collect pa (ab, am)) = ab @ live pa"
proof (induction pa arbitrary: ab am rule: live.induct)
  case 1
  show ?case by simp
next
  case (2 key rest)
  then show ?case by auto
next
  case (3 key v rest)
  have fresh: "key \<notin> fst ` set ab"
    using 3(3) by auto
  have "fst (collect rest (ab @ [(key, v)], AList.update v key am)) = (ab @ [(key, v)]) @ live rest"
    using 3(2,3) by (intro 3(1)) auto
  then show ?case
    using fresh by (simp add: update_fresh_append)
qed

lemma collect_snd:
  "map_of (snd (collect pa (ab, am))) n = Some k \<Longrightarrow>
   map_of am n = Some k \<or> (k, Some n) \<in> set pa"
proof (induction pa arbitrary: ab am rule: live.induct)
  case 1
  then show ?case by simp
next
  case (2 key rest)
  then show ?case by auto
next
  case (3 key v rest)
  from 3(2) have "map_of (snd (collect rest (AList.update key v ab, AList.update v key am))) n = Some k"
    by simp
  from 3(1) [OF this] show ?case
    by (auto simp: update_conv' split: if_splits)
qed

lemma collect_snd_dom:
  "(k, Some n) \<in> set pa \<Longrightarrow> map_of (snd (collect pa (ab, am))) n \<noteq> None"
proof -
  have keep: "map_of am n \<noteq> None \<Longrightarrow> map_of (snd (collect pa (ab, am))) n \<noteq> None" for pa ab am
    by (induction pa arbitrary: ab am rule: live.induct) (auto simp: update_conv')
  show "(k, Some n) \<in> set pa \<Longrightarrow> map_of (snd (collect pa (ab, am))) n \<noteq> None"
  proof (induction pa arbitrary: ab am rule: live.induct)
    case 1
    then show ?case by simp
  next
    case (2 key rest)
    then show ?case by auto
  next
    case (3 key v rest)
    show ?case
    proof (cases "(k, Some n) = (key, Some v)")
      case True
      then show ?thesis
        using keep [of "AList.update v key am" rest "AList.update key v ab"]
        by (simp add: update_conv')
    next
      case False
      with 3 show ?thesis by auto
    qed
  qed
qed

lemma name_prompts_Inr:
  "name_prompts am names = Inr prompts \<Longrightarrow>
   prompts = map (\<lambda>n. format_prompt n (the (map_of am n))) names \<and>
   (\<forall>n \<in> set names. map_of am n \<noteq> None)"
  by (induction names arbitrary: prompts) (auto split: option.splits sum.splits)

lemma name_prompts_Inl:
  "name_prompts am names = Inl e \<Longrightarrow> \<exists>n \<in> set names. map_of am n = None \<and> e = KeyError n"
  by (induction names) (auto split: option.splits sum.splits)

lemma name_prompts_missing:
  "\<exists>n \<in> set names. map_of am n = None \<Longrightarrow> \<exists>e. name_prompts am names = Inl e"
  using name_prompts_Inr [of am names] by (cases "name_prompts am names") auto

lemma collect_start:
  "fst (collect (potential_abbreviations names) ([], [])) = live (potential_abbreviations names)"
  using collect_fst [of "potential_abbreviations names" "[]" "[]"]
  by (simp add: potential_abbreviations_distinct)

lemma generate_name_prompts_Inr:
  assumes "generate_name_prompts names = Inr (prompts, abbreviations)"
  shows "abbreviations = live (potential_abbreviations names)"
    and "length prompts = length names"
    and "\<forall>i < length names. \<exists>k. prompts ! i = format_prompt (names ! i) k \<and>
           (k, names ! i) \<in> set abbreviations"
proof -
  let ?pa = "potential_abbreviations names"
  obtain ab am where c: "collect ?pa ([], []) = (ab, am)"
    by (cases "collect ?pa ([], [])")
  from assms c have np: "name_prompts am names = Inr prompts" and ab: "abbreviations = ab"
    by (auto simp: generate_name_prompts_def split: sum.splits)
  have "ab = live ?pa"
    using collect_start [of names] c by simp
  with ab show abl: "abbreviations = live ?pa"
    by simp
  from name_prompts_Inr [OF np]
  have ps: "prompts = map (\<lambda>n. format_prompt n (the (map_of am n))) names"
    and tot: "\<forall>n \<in> set names. map_of am n \<noteq> None"
    by blast+
  from ps show "length prompts = length names"
    by simp
  show "\<forall>i < length names. \<exists>k. prompts ! i = format_prompt (names ! i) k \<and>
           (k, names ! i) \<in> set abbreviations"
  proof (intro allI impI)
    fix i
    assume i: "i < length names"
    then obtain k where k: "map_of am (names ! i) = Some k"
      using tot by (metis nth_mem not_None_eq)
    then have "map_of (snd (collect ?pa ([], []))) (names ! i) = Some k"
      using c by simp
    from collect_snd [OF this] have "(k, Some (names ! i)) \<in> set ?pa"
      by simp
    then have "(k, names ! i) \<in> set abbreviations"
      unfolding abl set_live by simp
    moreover have "prompts ! i = format_prompt (names ! i) k"
      using i k ps by simp
    ultimately show "\<exists>k. prompts ! i = format_prompt (names ! i) k \<and>
           (k, names ! i) \<in> set abbreviations"
      by blast
  qed
qed

lemma generate_name_prompts_missing:
  assumes "n \<in> set names" and "n \<notin> bound_names (potential_abbreviations names)"
  shows "\<exists>m \<in> set names. m \<notin> bound_names (potential_abbreviations names) \<and>
           generate_name_prompts names = Inl (KeyError m)"
proof -
  let ?pa = "potential_abbreviations names"
  obtain ab am where c: "collect ?pa ([], []) = (ab, am)"
    by (cases "collect ?pa ([], [])")
  have unbound: "m \<notin> bound_names ?pa \<Longrightarrow> map_of am m = None" for m
  proof (rule ccontr)
    assume m: "m \<notin> bound_names ?pa" and "map_of am m \<noteq> None"
    then obtain k where "map_of (snd (collect ?pa ([], []))) m = Some k"
      using c by auto
    from collect_snd [OF this] have "(k, Some m) \<in> set ?pa"
      by simp
    with m show False
      by (auto simp: bound_names_def)
  qed
  have bound: "map_of am m = None \<Longrightarrow> m \<notin> bound_names ?pa" for m
    using collect_snd_dom [of _ m ?pa "[]" "[]"] c by (auto simp: bound_names_def)
  from assms unbound have "\<exists>n \<in> set names. map_of am n = None"
    by blast
  from name_prompts_missing [OF this] obtain e where e: "name_prompts am names = Inl e"
    by blast
  from name_prompts_Inl [OF e] obtain m where
    m: "m \<in> set names" "map_of am m = None" "e = KeyError m"
    by blast
  have "generate_name_prompts names = Inl (KeyError m)"
    using c e m(3) by (simp add: generate_name_prompts_def)
  with m bound show ?thesis
    by blast
qed

lemma build_options_values:
  assumes "build_options names t = Inr (w, pm)"
  shows "snd ` set pm \<subseteq> set names"
proof (cases "t = ACRONYMN")
  case True
  with assms obtain ps where "generate_city_prompts names = Inr (ps, pm)"
    by (auto simp: build_options_def split: sum.splits if_splits)
  then have "city_loop names ([], []) = Inr (ps, pm)"
    by (simp add: generate_city_prompts_def)
  from city_loop_values [OF this] show ?thesis
    by simp
next
  case False
  with assms obtain ps where "generate_name_prompts names = Inr (ps, pm)"
    by (auto simp: build_options_def split: sum.splits if_splits)
  from generate_name_prompts_Inr(1) [OF this]
  have "snd ` set pm \<subseteq> bound_names (potential_abbreviations names)"
    by (auto simp: set_live bound_names_def)
  with potential_abbreviations_bound [of names] show ?thesis
    by blast
qed

section \<open>The attempts of show_prompt\<close>

lemma find_selected_find:
  "find_selected raw prompt_map = map_option snd (List.find (matches raw) prompt_map)"
proof (induction prompt_map)
  case Nil
  show ?case by simp
next
  case (Cons e prompt_map)
  obtain key val where e: "e = (key, val)"
    by (cases e)
  show ?case
    unfolding e using Cons.IH by (simp add: Let_def matches_def)
qed

lemma find_selected_None:
  "find_selected raw prompt_map = None \<longleftrightarrow> (\<forall>e \<in> set prompt_map. \<not> matches raw e)"
  by (auto simp: find_selected_find find_None_iff)

lemma find_selected_Some:
  "find_selected raw prompt_map = Some v \<Longrightarrow> \<exists>k. (k, v) \<in> set prompt_map \<and> matches raw (k, v)"
  by (induction prompt_map) (auto simp: Let_def matches_def split: if_splits)

lemma prompt_attempts_match:
  "i < n \<Longrightarrow> i < length lines \<Longrightarrow> find_selected (lines ! i) pm = Some v \<Longrightarrow>
   \<forall>j < i. find_selected (lines ! j) pm = None \<Longrightarrow>
   prompt_attempts n pm raw lines = (Inr v, drop (Suc i) lines)"
proof (induction i arbitrary: n lines raw)
  case 0
  then show ?case
    by (cases n; cases lines) auto
next
  case (Suc i)
  from Suc.prems obtain m where n: "n = Suc m"
    by (cases n) auto
  from Suc.prems obtain l ls where lines: "lines = l # ls"
    by (cases lines) auto
  have first: "find_selected l pm = None"
    using Suc.prems(4) lines by auto
  have rest: "\<forall>j < i. find_selected (ls ! j) pm = None"
    using Suc.prems(4) lines by auto
  have "prompt_attempts m pm l ls = (Inr v, drop (Suc i) ls)"
    using Suc.prems n lines rest by (intro Suc.IH) auto
  then show ?case
    using first n lines by simp
qed

lemma prompt_attempts_exhausted:
  "n \<le> length lines \<Longrightarrow> \<forall>j < n. find_selected (lines ! j) pm = None \<Longrightarrow>
   prompt_attempts n pm raw lines =
     (Inl (invalid_selection (last (raw # take n lines))), drop n lines)"
proof (induction n arbitrary: lines raw)
  case 0
  show ?case by (simp add: invalid_selection_def)
next
  case (Suc n)
  from Suc.prems obtain l ls where lines: "lines = l # ls"
    by (cases lines) auto
  have "prompt_attempts n pm l ls = (Inl (invalid_selection (last (l # take n ls))), drop n ls)"
    using Suc.prems lines by (intro Suc.IH) auto
  moreover have "find_selected l pm = None"
    using Suc.prems(2) lines by auto
  ultimately show ?case
    using lines by simp
qed

lemma prompt_attempts_Exception:
  "fst (prompt_attempts n pm raw lines) = Inl (Exception msg) \<Longrightarrow>
   n \<le> length lines \<and> (\<forall>j < n. find_selected (lines ! j) pm = None)"
proof (induction n pm raw lines rule: prompt_attempts.induct)
  case (1 pm raw lines)
  show ?case by simp
next
  case (2 n pm raw)
  then show ?case by simp
next
  case (3 n pm raw line lines)
  show ?case
  proof (cases "find_selected line pm")
    case None
    with 3 have "n \<le> length lines \<and> (\<forall>j < n. find_selected (lines ! j) pm = None)"
      by simp
    with None show ?thesis
      by (auto simp: less_Suc_eq_0_disj)
  next
    case (Some v)
    with 3 show ?thesis by simp
  qed
qed

lemma prompt_attempts_reads:
  "\<exists>consumed. lines = consumed @ snd (prompt_attempts n pm raw lines) \<and> length consumed \<le> n"
proof (induction n pm raw lines rule: prompt_attempts.induct)
  case (1 pm raw lines)
  show ?case by simp
next
  case (2 n pm raw)
  show ?case by simp
next
  case (3 n pm raw line lines)
  show ?case
  proof (cases "find_selected line pm")
    case None
    with 3 obtain consumed where
      c: "lines = consumed @ snd (prompt_attempts n pm line lines)" "length consumed \<le> n"
      by auto
    have "line # lines = (line # consumed) @ snd (prompt_attempts (Suc n) pm raw (line # lines))"
      using None c(1) by simp
    moreover have "length (line # consumed) \<le> Suc n"
      using c(2) by simp
    ultimately show ?thesis
      by blast
  next
    case (Some v)
    then show ?thesis
      by (auto intro: exI [of _ "[line]"])
  qed
qed

lemma prompt_attempts_value:
  "fst (prompt_attempts n pm raw lines) = Inr v \<Longrightarrow> v \<in> snd ` set pm"
proof (induction n pm raw lines rule: prompt_attempts.induct)
  case (3 n pm raw line lines)
  then show ?case
    by (cases "find_selected line pm") (auto dest!: find_selected_Some intro: rev_image_eqI)
qed simp_all

lemma show_prompt_loop:
  "build_options names t = Inr (w, pm) \<Longrightarrow>
   show_prompt names t b lines = prompt_attempts MAX_PROMPTS pm [] lines"
  by (simp add: show_prompt_def)

lemma scenario_map:
  "build_options [''Chicago'', ''New York City'', ''Washington''] ACRONYMN =
     Inr (''Chicago [C], New York City [NYC] or Washington [W]'',
          [(''C'', ''Chicago''), (''NYC'', ''New York City''), (''W'', ''Washington'')])"
  by (simp add: build_options_def generate_city_prompts_def abbreviate_initial_def
      format_prompt_def)

lemma scenario_third_attempt:
  "show_prompt [''Chicago'', ''New York City'', ''Washington''] ACRONYMN
     ''Would you like to see data for'' [''xyz'', ''XYZ'', ''c''] = (Inr ''Chicago'', [])"
  by code_simp

text \<open>
  Claim C5. Whatever the prompt map and the pending lines, the loop of
  \<^verbatim>\<open>show_prompt\<close> reads at most three lines. An input selects the value of the
  first entry whose key or value equals it in lower case. If the first
  matching line is one of the first three, the value it selects is returned
  and no further line is read. The \<^verbatim>\<open>Invalid selection\<close> exception is raised
  exactly when three lines were read and none matched; its message carries
  the third line, or two quotes when that line is empty. \<^verbatim>\<open>show_prompt\<close> runs
  this loop on the map that \<^verbatim>\<open>build_options\<close> returns.
\<close>

theorem show_prompt_three_attempts:
  "(\<exists>consumed. lines = consumed @ snd (prompt_attempts MAX_PROMPTS pm [] lines) \<and>
       length consumed \<le> 3) \<and>
   (\<forall>raw. find_selected raw pm = map_option snd (List.find (matches raw) pm)) \<and>
   (\<forall>i v. i < 3 \<and> i < length lines \<and> find_selected (lines ! i) pm = Some v \<and>
       (\<forall>j < i. find_selected (lines ! j) pm = None) \<longrightarrow>
       prompt_attempts MAX_PROMPTS pm [] lines = (Inr v, drop (Suc i) lines)) \<and>
   ((\<exists>msg. fst (prompt_attempts MAX_PROMPTS pm [] lines) = Inl (Exception msg)) \<longleftrightarrow>
       3 \<le> length lines \<and> (\<forall>j < 3. find_selected (lines ! j) pm = None)) \<and>
   (3 \<le> length lines \<and> (\<forall>j < 3. find_selected (lines ! j) pm = None) \<longrightarrow>
       prompt_attempts MAX_PROMPTS pm [] lines =
         (Inl (Exception (''Invalid selection: '' @
                 (if lines ! 2 = [] then [CHR 0x27, CHR 0x27] else lines ! 2))),
          drop 3 lines)) \<and>
   (\<forall>names t w b. build_options names t = Inr (w, pm) \<longrightarrow>
       show_prompt names t b lines = prompt_attempts MAX_PROMPTS pm [] lines)"
proof (intro conjI allI impI)
  show "\<exists>consumed. lines = consumed @ snd (prompt_attempts MAX_PROMPTS pm [] lines) \<and>
       length consumed \<le> 3"
    using prompt_attempts_reads [of lines MAX_PROMPTS pm "[]"] by (simp add: MAX_PROMPTS_def)
next
  fix raw
  show "find_selected raw pm = map_option snd (List.find (matches raw) pm)"
    by (rule find_selected_find)
next
  fix i v
  assume "i < 3 \<and> i < length lines \<and> find_selected (lines ! i) pm = Some v \<and>
       (\<forall>j < i. find_selected (lines ! j) pm = None)"
  then show "prompt_attempts MAX_PROMPTS pm [] lines = (Inr v, drop (Suc i) lines)"
    by (intro prompt_attempts_match) (simp_all add: MAX_PROMPTS_def)
next
  have ex: "prompt_attempts MAX_PROMPTS pm [] lines =
         (Inl (Exception (''Invalid selection: '' @
                 (if lines ! 2 = [] then [CHR 0x27, CHR 0x27] else lines ! 2))),
          drop 3 lines)"
    if h: "3 \<le> length lines \<and> (\<forall>j < 3. find_selected (lines ! j) pm = None)"
  proof -
    have "take 3 lines \<noteq> []"
      using h by auto
    moreover have "length (take 3 lines) = 3"
      using h by simp
    ultimately have l: "last ([] # take 3 lines) = lines ! 2"
      by (simp add: last_conv_nth del: length_take)
    have e: "prompt_attempts 3 pm [] lines =
        (Inl (invalid_selection (last ([] # take 3 lines))), drop 3 lines)"
      using h by (intro prompt_attempts_exhausted) blast+
    show ?thesis
      unfolding MAX_PROMPTS_def e l invalid_selection_def by (rule refl)
  qed
  show "(\<exists>msg. fst (prompt_attempts MAX_PROMPTS pm [] lines) = Inl (Exception msg)) \<longleftrightarrow>
       3 \<le> length lines \<and> (\<forall>j < 3. find_selected (lines ! j) pm = None)"
  proof
    assume "\<exists>msg. fst (prompt_attempts MAX_PROMPTS pm [] lines) = Inl (Exception msg)"
    then obtain msg where "fst (prompt_attempts 3 pm [] lines) = Inl (Exception msg)"
      unfolding MAX_PROMPTS_def by blast
    then show "3 \<le> length lines \<and> (\<forall>j < 3. find_selected (lines ! j) pm = None)"
      by (rule prompt_attempts_Exception)
  next
    assume "3 \<le> length lines \<and> (\<forall>j < 3. find_selected (lines ! j) pm = None)"
    from ex [OF this]
    have "fst (prompt_attempts MAX_PROMPTS pm [] lines) =
        Inl (Exception (''Invalid selection: '' @
                 (if lines ! 2 = [] then [CHR 0x27, CHR 0x27] else lines ! 2)))"
      by (rule arg_cong [where f = fst, THEN trans]) (rule fst_conv)
    then show "\<exists>msg. fst (prompt_attempts MAX_PROMPTS pm [] lines) = Inl (Exception msg)"
      by (rule exI)
  qed
  show "prompt_attempts MAX_PROMPTS pm [] lines =
         (Inl (Exception (''Invalid selection: '' @
                 (if lines ! 2 = [] then [CHR 0x27, CHR 0x27] else lines ! 2))),
          drop 3 lines)"
    if "3 \<le> length lines \<and> (\<forall>j < 3. find_selected (lines ! j) pm = None)"
    using that by (rule ex)
next
  fix names t w b
  assume "build_options names t = Inr (w, pm)"
  then show "show_prompt names t b lines = prompt_attempts MAX_PROMPTS pm [] lines"
    by (rule show_prompt_loop)
qed

theorem show_prompt_three_attempts_witness:
  "find_selected ''xyz'' [(''C'', ''Chicago''), (''NYC'', ''New York City''), (''W'', ''Washington'')] = None \<and>
   find_selected ''XYZ'' [(''C'', ''Chicago''), (''NYC'', ''New York City''), (''W'', ''Washington'')] = None \<and>
   find_selected ''c'' [(''C'', ''Chicago''), (''NYC'', ''New York City''), (''W'', ''Washington'')] = Some ''Chicago'' \<and>
   prompt_attempts MAX_PROMPTS [(''C'', ''Chicago''), (''NYC'', ''New York City''), (''W'', ''Washington'')] []
     [''xyz'', ''XYZ'', ''c'', ''w''] = (Inr ''Chicago'', [''w'']) \<and>
   show_prompt [''Chicago'', ''New York City'', ''Washington''] ACRONYMN ''Which''
     [''xyz'', ''XYZ'', ''c'', ''w''] = (Inr ''Chicago'', [''w''])"
proof -
  let ?pm = "[(''C'', ''Chicago''), (''NYC'', ''New York City''), (''W'', ''Washington'')]"
  let ?lines = "[''xyz'', ''XYZ'', ''c'', ''w'']"
  have f0: "find_selected ''xyz'' ?pm = None"
    by code_simp
  have f1: "find_selected ''XYZ'' ?pm = None"
    by code_simp
  have f2: "find_selected ''c'' ?pm = Some ''Chicago''"
    by code_simp
  have before: "\<forall>j < 2. find_selected (?lines ! j) ?pm = None"
    using f0 f1 by (auto simp: less_2_cases_iff simp del: find_selected.simps)
  have h: "(2::nat) < 3 \<and> 2 < length ?lines \<and> find_selected (?lines ! 2) ?pm = Some ''Chicago'' \<and>
      (\<forall>j < 2. find_selected (?lines ! j) ?pm = None)"
    using f2 before by (simp del: find_selected.simps)
  have bo: "build_options [''Chicago'', ''New York City'', ''Washington''] ACRONYMN =
      Inr (''Chicago [C], New York City [NYC] or Washington [W]'', ?pm)"
    by (rule scenario_map)
  from show_prompt_three_attempts [of ?lines ?pm] h
  have a: "prompt_attempts MAX_PROMPTS ?pm [] ?lines = (Inr ''Chicago'', drop (Suc 2) ?lines)"
    by blast
  from show_prompt_three_attempts [of ?lines ?pm] bo
  have b: "show_prompt [''Chicago'', ''New York City'', ''Washington''] ACRONYMN ''Which'' ?lines =
      prompt_attempts MAX_PROMPTS ?pm [] ?lines"
    by blast
  from a b f0 f1 f2 show ?thesis
    by (simp del: find_selected.simps)
qed

text \<open>
  Claim C10. When \<^verbatim>\<open>show_prompt\<close> returns a string, \<^verbatim>\<open>build_options\<close> has
  returned a map for the names, and the string is a value of that map and one
  of the names supplied: the input only selects.
\<close>

theorem show_prompt_returns_map_value:
  "fst (show_prompt names t b lines) = Inr v \<Longrightarrow>
   \<exists>w pm. build_options names t = Inr (w, pm) \<and> v \<in> snd ` set pm \<and> v \<in> set names"
proof -
  assume r: "fst (show_prompt names t b lines) = Inr v"
  then obtain w pm where bo: "build_options names t = Inr (w, pm)"
    by (cases "build_options names t") (auto simp: show_prompt_def)
  with r have "fst (prompt_attempts MAX_PROMPTS pm [] lines) = Inr v"
    by (simp add: show_prompt_def)
  then have "v \<in> snd ` set pm"
    by (rule prompt_attempts_value)
  with build_options_values [OF bo] bo show ?thesis
    by blast
qed

theorem show_prompt_returns_map_value_witness:
  "fst (show_prompt [''Chicago'', ''New York City'', ''Washington''] ACRONYMN
     ''Would you like to see data for'' [''xyz'', ''XYZ'', ''c'']) = Inr ''Chicago'' \<and>
   (\<exists>w pm. build_options [''Chicago'', ''New York City'', ''Washington''] ACRONYMN = Inr (w, pm) \<and>
      ''Chicago'' \<in> snd ` set pm \<and>
      ''Chicago'' \<in> set [''Chicago'', ''New York City'', ''Washington''])"
proof -
  have h: "fst (show_prompt [''Chicago'', ''New York City'', ''Washington''] ACRONYMN
     ''Would you like to see data for'' [''xyz'', ''XYZ'', ''c'']) = Inr ''Chicago''"
    by (simp add: scenario_third_attempt)
  from show_prompt_returns_map_value [OF h] h show ?thesis
    by blast
qed

section \<open>Names that lose their entry\<close>

lemma table_not_nonex: "potential_abbreviations [''not'', ''nonex''] =
     [(''none'', Some ''not''), (''n'', Some ''nonex'')]"
  by code_simp

lemma table_not_nonex_nonyy: "potential_abbreviations [''not'', ''nonex'', ''nonyy''] =
     [(''none'', Some ''nonex''), (''n'', None), (''no'', None), (''non'', None),
      (''nony'', Some ''nonyy'')]"
  by code_simp

lemma prompts_not_nonex_nonyy: "generate_name_prompts [''not'', ''nonex'', ''nonyy''] = Inl (KeyError ''not'')"
  by code_simp


text \<open>
  Claim C8. A displaced name is stored under its longer prefix by a plain
  \<^verbatim>\<open>potential_abbreviations[previous_name[:length + 1]] = previous_name\<close>,
  whatever that key held. For the names not, nonex, nonyy the third name
  displaces nonex from non to none, the key of the first name, which is left
  without an entry, and the call raises \<^verbatim>\<open>KeyError\<close>. Whenever
  \<^verbatim>\<open>generate_name_prompts\<close> returns, there is one prompt per name, in the order
  of the names, built from a key that the returned map binds to that name, so
  every name is a value of the map; and when some name has no live entry in
  the table the call raises \<^verbatim>\<open>KeyError\<close> for such a name.
\<close>

theorem displaced_name_overwrites:
  "potential_abbreviations [''not'', ''nonex''] =
     [(''none'', Some ''not''), (''n'', Some ''nonex'')] \<and>
   potential_abbreviations [''not'', ''nonex'', ''nonyy''] =
     [(''none'', Some ''nonex''), (''n'', None), (''no'', None), (''non'', None),
      (''nony'', Some ''nonyy'')] \<and>
   generate_name_prompts [''not'', ''nonex'', ''nonyy''] = Inl (KeyError ''not'') \<and>
   (\<forall>previous. map_of pa (take len name) = Some (Some previous) \<longrightarrow>
      prefix_search name (len # lens) pa =
        prefix_search name lens
          (AList.update (take (len + 1) previous) (Some previous)
             (AList.update (take len name) None pa))) \<and>
   (\<forall>prompts abbreviations.
      generate_name_prompts names = Inr (prompts, abbreviations) \<longrightarrow>
        length prompts = length names \<and>
        (\<forall>i < length names. \<exists>k. prompts ! i = format_prompt (names ! i) k \<and>
           (k, names ! i) \<in> set abbreviations) \<and>
        set names \<subseteq> snd ` set abbreviations) \<and>
   ((\<exists>n \<in> set names. \<forall>k. (k, Some n) \<notin> set (potential_abbreviations names)) \<longrightarrow>
      (\<exists>m \<in> set names. (\<forall>k. (k, Some m) \<notin> set (potential_abbreviations names)) \<and>
         generate_name_prompts names = Inl (KeyError m)))"
proof -
  have step: "\<forall>previous. map_of pa (take len name) = Some (Some previous) \<longrightarrow>
      prefix_search name (len # lens) pa =
        prefix_search name lens
          (AList.update (take (len + 1) previous) (Some previous)
             (AList.update (take len name) None pa))"
    by simp
  have normal: "\<forall>prompts abbreviations.
      generate_name_prompts names = Inr (prompts, abbreviations) \<longrightarrow>
        length prompts = length names \<and>
        (\<forall>i < length names. \<exists>k. prompts ! i = format_prompt (names ! i) k \<and>
           (k, names ! i) \<in> set abbreviations) \<and>
        set names \<subseteq> snd ` set abbreviations"
  proof (intro allI impI)
    fix prompts abbreviations
    assume g: "generate_name_prompts names = Inr (prompts, abbreviations)"
    have len: "length prompts = length names"
      by (rule generate_name_prompts_Inr(2) [OF g])
    have each: "\<forall>i < length names. \<exists>k. prompts ! i = format_prompt (names ! i) k \<and>
           (k, names ! i) \<in> set abbreviations"
      by (rule generate_name_prompts_Inr(3) [OF g])
    have "set names \<subseteq> snd ` set abbreviations"
    proof
      fix n
      assume "n \<in> set names"
      then obtain i where "i < length names" "names ! i = n"
        by (auto simp: in_set_conv_nth)
      with each obtain k where "(k, n) \<in> set abbreviations"
        by blast
      then show "n \<in> snd ` set abbreviations"
        by (rule rev_image_eqI) simp
    qed
    with len each show "length prompts = length names \<and>
        (\<forall>i < length names. \<exists>k. prompts ! i = format_prompt (names ! i) k \<and>
           (k, names ! i) \<in> set abbreviations) \<and>
        set names \<subseteq> snd ` set abbreviations"
      by (intro conjI)
  qed
  have lost: "(\<exists>n \<in> set names. \<forall>k. (k, Some n) \<notin> set (potential_abbreviations names)) \<longrightarrow>
      (\<exists>m \<in> set names. (\<forall>k. (k, Some m) \<notin> set (potential_abbreviations names)) \<and>
         generate_name_prompts names = Inl (KeyError m))"
  proof
    assume "\<exists>n \<in> set names. \<forall>k. (k, Some n) \<notin> set (potential_abbreviations names)"
    then obtain n where "n \<in> set names" "n \<notin> bound_names (potential_abbreviations names)"
      by (auto simp: bound_names_def)
    from generate_name_prompts_missing [OF this]
    show "\<exists>m \<in> set names. (\<forall>k. (k, Some m) \<notin> set (potential_abbreviations names)) \<and>
         generate_name_prompts names = Inl (KeyError m)"
      by (auto simp: bound_names_def)
  qed
  show ?thesis
    by (intro conjI table_not_nonex table_not_nonex_nonyy prompts_not_nonex_nonyy step normal lost)
qed


lemma prompts_month_day: "generate_name_prompts [''month'', ''day'', ''not at all''] =
     Inr ([''month [m]'', ''day [d]'', ''not at all [none]''],
          [(''m'', ''month''), (''d'', ''day''), (''none'', ''not at all'')])"
  by code_simp

theorem displaced_name_overwrites_witness:
  "map_of [(''n'', Some ''nonex'')] (take 1 ''nonyy'') = Some (Some ''nonex'') \<and>
   prefix_search ''nonyy'' [1] [(''n'', Some ''nonex'')] =
     [(''n'', None), (''no'', Some ''nonex'')] \<and>
   generate_name_prompts [''month'', ''day'', ''not at all''] =
     Inr ([''month [m]'', ''day [d]'', ''not at all [none]''],
          [(''m'', ''month''), (''d'', ''day''), (''none'', ''not at all'')]) \<and>
   length [''month [m]'', ''day [d]'', ''not at all [none]''] =
     length [''month'', ''day'', ''not at all''] \<and>
   set [''month'', ''day'', ''not at all''] \<subseteq>
     snd ` set [(''m'', ''month''), (''d'', ''day''), (''none'', ''not at all'')] \<and>
   (\<exists>m. generate_name_prompts [''not'', ''nonex'', ''nonyy''] = Inl (KeyError m))"
proof -
  let ?names = "[''month'', ''day'', ''not at all'']"
  have h1: "map_of [(''n'', Some ''nonex'')] (take 1 ''nonyy'') = Some (Some ''nonex'')"
    by simp
  have s: "prefix_search ''nonyy'' [] x = x" for x
    by simp
  from displaced_name_overwrites [of "[(''n'', Some ''nonex'')]" 1 "''nonyy''" "[]" ?names] h1
  have a: "prefix_search ''nonyy'' [1] [(''n'', Some ''nonex'')] =
      prefix_search ''nonyy'' []
        (AList.update (take (1 + 1) ''nonex'') (Some ''nonex'')
           (AList.update (take 1 ''nonyy'') None [(''n'', Some ''nonex'')]))"
    by blast
  have a': "prefix_search ''nonyy'' [1] [(''n'', Some ''nonex'')] =
      [(''n'', None), (''no'', Some ''nonex'')]"
    unfolding a s by simp
  have h2: "generate_name_prompts ?names =
      Inr ([''month [m]'', ''day [d]'', ''not at all [none]''],
           [(''m'', ''month''), (''d'', ''day''), (''none'', ''not at all'')])"
    by (rule prompts_month_day)
  from displaced_name_overwrites [of "[]" 0 "[]" "[]" ?names] h2
  have b: "length [''month [m]'', ''day [d]'', ''not at all [none]''] = length ?names \<and>
      set ?names \<subseteq> snd ` set [(''m'', ''month''), (''d'', ''day''), (''none'', ''not at all'')]"
    by blast
  have h3: "\<exists>n \<in> set [''not'', ''nonex'', ''nonyy''].
      \<forall>k. (k, Some n) \<notin> set (potential_abbreviations [''not'', ''nonex'', ''nonyy''])"
    unfolding table_not_nonex_nonyy by simp
  from displaced_name_overwrites [of "[]" 0 "[]" "[]" "[''not'', ''nonex'', ''nonyy'']"] h3
  have c: "\<exists>m. generate_name_prompts [''not'', ''nonex'', ''nonyy''] = Inl (KeyError m)"
    by blast
  from h1 a' h2 b c show ?thesis
    by (intro conjI) (simp_all only:)
qed

section \<open>The prefix search and the catch-all names\<close>


















text \<open>
  Claim C1. The names ab, a are distinct, have no space and contain neither
  not nor all; \<^verbatim>\<open>generate_name_prompts\<close> raises \<^verbatim>\<open>KeyError\<close> for them and
  returns no map. In the order a, ab the same names get the keys a and ab.
\<close>

theorem prefix_of_earlier_name_unregistered:
  "distinct [''ab'', ''a''] \<and>
   str_find ''ab'' ''not'' = - 1 \<and> str_find ''ab'' ''all'' = - 1 \<and>
   str_find ''a'' ''not'' = - 1 \<and> str_find ''a'' ''all'' = - 1 \<and>
   generate_name_prompts [''ab'', ''a''] = Inl (KeyError ''a'') \<and>
   generate_name_prompts [''a'', ''ab''] =
     Inr ([''a [a]'', ''ab [ab]''], [(''a'', ''a''), (''ab'', ''ab'')])"
  by code_simp

end
